theory Spec2Isabelle
  imports Complex_Main "HOL-Library.Char_ord" "HOL-Library.List_Lexorder"
begin

section \<open>Numbers\<close>

text \<open>
  The analytics functions of \<^verbatim>\<open>src/app/page.tsx\<close> work on JavaScript numbers. A
  return, a risk-free rate and the periods-per-year constant are modelled as \<^typ>\<open>real\<close>.
  Where a result is a formula of the inputs (the cumulative curve, the drawdown, the
  annualized return and volatility) the arithmetic of the model is exact, so rounding and
  overflow of IEEE doubles are outside of it. Where a result hangs on a test of a computed
  number, the Sharpe ratio, the model computes in doubles (section Doubles). The date
  strings, labels and array indices are modelled exactly.

  Exact arithmetic on finite inputs leaves the reals in two places of the exact part:
  \<^verbatim>\<open>Math.pow\<close> of a non-positive base and \<^verbatim>\<open>Math.sqrt\<close> of a negative number. JavaScript
  answers \<^verbatim>\<open>NaN\<close>, \<^verbatim>\<open>Infinity\<close> or \<^verbatim>\<open>-Infinity\<close> there; the exact part has the single value
  \<open>NonFinite\<close> for the three of them.
\<close>

datatype number = Finite real | NonFinite

text \<open>
  \<^verbatim>\<open>Math.pow(b, e)\<close> on finite arguments: 1 for a zero exponent; the real power of a
  positive base; for the base 0, 0 with a positive exponent and an infinity with a
  negative one; for a negative base, the integer power when the exponent is an integer
  and \<^verbatim>\<open>NaN\<close> otherwise.
\<close>

definition Math_pow :: "real \<Rightarrow> real \<Rightarrow> number" where
  "Math_pow b e =
     (if e = 0 then Finite 1
      else if 0 < b then Finite (b powr e)
      else if b = 0 then (if 0 < e then Finite 0 else NonFinite)
      else if e \<in> \<int> then Finite (b powi \<lfloor>e\<rfloor>)
      else NonFinite)"

text \<open>\<^verbatim>\<open>Math.sqrt(x)\<close> is \<^verbatim>\<open>NaN\<close> for a negative \<open>x\<close>.\<close>

definition Math_sqrt :: "real \<Rightarrow> number" where
  "Math_sqrt x = (if x < 0 then NonFinite else Finite (sqrt x))"

section \<open>Doubles\<close>

text \<open>
  The Sharpe ratio hangs on a test of a computed number against zero (\<^verbatim>\<open>exVol === 0\<close>), and
  there the rounding of each operation decides the answer: a flat series whose mean is
  not a double has a computed volatility that is tiny but not zero. That part of the
  calculator is therefore modelled in the arithmetic of IEEE 754 doubles: a double is a
  finite real, an infinity or \<^verbatim>\<open>NaN\<close>, and an operation on finite doubles rounds its exact
  result with \<open>fl\<close>. The rounding \<open>fl\<close> is a parameter of the model; \<open>binary64\<close> below is
  the rounding of the program (to the nearest double, ties to the even significand,
  an infinity on overflow), and \<open>Fin\<close> itself is exact arithmetic.

  The two zeros are the one value \<open>Fin 0\<close> (they are equal for \<^verbatim>\<open>===\<close>). Their sign shows
  in a division by zero only, which takes the zero as \<^verbatim>\<open>+0\<close>; in the calculator that is
  the division \<^verbatim>\<open>rfAnnual / freq\<close> for \<^verbatim>\<open>freq = 0\<close>, where either sign of the infinity ends
  in the same \<^verbatim>\<open>NaN\<close>. The square \<^verbatim>\<open>x ** 2\<close> is taken as correctly rounded.
\<close>

datatype double = Fin real | PosInfinity | NegInfinity | NotANumber

fun dadd :: "(real \<Rightarrow> double) \<Rightarrow> double \<Rightarrow> double \<Rightarrow> double" where
  "dadd fl (Fin x) (Fin y) = fl (x + y)"
| "dadd fl NotANumber b = NotANumber"
| "dadd fl a NotANumber = NotANumber"
| "dadd fl PosInfinity NegInfinity = NotANumber"
| "dadd fl NegInfinity PosInfinity = NotANumber"
| "dadd fl PosInfinity b = PosInfinity"
| "dadd fl a PosInfinity = PosInfinity"
| "dadd fl NegInfinity b = NegInfinity"
| "dadd fl a NegInfinity = NegInfinity"

fun dsub :: "(real \<Rightarrow> double) \<Rightarrow> double \<Rightarrow> double \<Rightarrow> double" where
  "dsub fl (Fin x) (Fin y) = fl (x - y)"
| "dsub fl NotANumber b = NotANumber"
| "dsub fl a NotANumber = NotANumber"
| "dsub fl PosInfinity PosInfinity = NotANumber"
| "dsub fl NegInfinity NegInfinity = NotANumber"
| "dsub fl PosInfinity b = PosInfinity"
| "dsub fl NegInfinity b = NegInfinity"
| "dsub fl a PosInfinity = NegInfinity"
| "dsub fl a NegInfinity = PosInfinity"

fun dmul :: "(real \<Rightarrow> double) \<Rightarrow> double \<Rightarrow> double \<Rightarrow> double" where
  "dmul fl (Fin x) (Fin y) = fl (x * y)"
| "dmul fl NotANumber b = NotANumber"
| "dmul fl a NotANumber = NotANumber"
| "dmul fl (Fin x) PosInfinity =
     (if x = 0 then NotANumber else if 0 < x then PosInfinity else NegInfinity)"
| "dmul fl (Fin x) NegInfinity =
     (if x = 0 then NotANumber else if 0 < x then NegInfinity else PosInfinity)"
| "dmul fl PosInfinity (Fin y) =
     (if y = 0 then NotANumber else if 0 < y then PosInfinity else NegInfinity)"
| "dmul fl NegInfinity (Fin y) =
     (if y = 0 then NotANumber else if 0 < y then NegInfinity else PosInfinity)"
| "dmul fl PosInfinity PosInfinity = PosInfinity"
| "dmul fl PosInfinity NegInfinity = NegInfinity"
| "dmul fl NegInfinity PosInfinity = NegInfinity"
| "dmul fl NegInfinity NegInfinity = PosInfinity"

fun ddiv :: "(real \<Rightarrow> double) \<Rightarrow> double \<Rightarrow> double \<Rightarrow> double" where
  "ddiv fl (Fin x) (Fin y) =
     (if y = 0
      then (if x = 0 then NotANumber else if 0 < x then PosInfinity else NegInfinity)
      else fl (x / y))"
| "ddiv fl NotANumber b = NotANumber"
| "ddiv fl a NotANumber = NotANumber"
| "ddiv fl (Fin x) PosInfinity = Fin 0"
| "ddiv fl (Fin x) NegInfinity = Fin 0"
| "ddiv fl PosInfinity (Fin y) = (if 0 \<le> y then PosInfinity else NegInfinity)"
| "ddiv fl NegInfinity (Fin y) = (if 0 \<le> y then NegInfinity else PosInfinity)"
| "ddiv fl PosInfinity PosInfinity = NotANumber"
| "ddiv fl PosInfinity NegInfinity = NotANumber"
| "ddiv fl NegInfinity PosInfinity = NotANumber"
| "ddiv fl NegInfinity NegInfinity = NotANumber"

fun dsqrt :: "(real \<Rightarrow> double) \<Rightarrow> double \<Rightarrow> double" where
  "dsqrt fl (Fin x) = (if x < 0 then NotANumber else fl (sqrt x))"
| "dsqrt fl PosInfinity = PosInfinity"
| "dsqrt fl NegInfinity = NotANumber"
| "dsqrt fl NotANumber = NotANumber"

fun dsquare :: "(real \<Rightarrow> double) \<Rightarrow> double \<Rightarrow> double" where
  "dsquare fl (Fin x) = fl (x * x)"
| "dsquare fl PosInfinity = PosInfinity"
| "dsquare fl NegInfinity = PosInfinity"
| "dsquare fl NotANumber = NotANumber"

text \<open>
  The rounding of the program. A real \<open>x\<close> other than 0 lies in one binade,
  \<open>2 powi k \<le> \<bar>x\<bar> < 2 powi (k + 1)\<close>; the doubles of that binade are the multiples of
  \<open>2 powi (k - 52)\<close>, and below \<open>2 powi (- 1022)\<close> the subnormal doubles are the multiples of
  \<open>2 powi (- 1074)\<close>. \<open>x\<close> is rounded to the nearest multiple, a tie going to the even one,
  and a result of magnitude \<open>2 powi 1024\<close> or more is an infinity.
\<close>

definition round_ties_even :: "real \<Rightarrow> int" where
  "round_ties_even q =
     (let f = \<lfloor>q\<rfloor>
      in if q - of_int f < 1 / 2 then f
         else if q - of_int f > 1 / 2 then f + 1
         else if even f then f else f + 1)"

definition binary64 :: "real \<Rightarrow> double" where
  "binary64 x =
     (if x = 0 then Fin 0
      else
        let e = max \<lfloor>log 2 \<bar>x\<bar>\<rfloor> (- 1022) - 52;
            y = of_int (round_ties_even (x / 2 powi e)) * 2 powi e
        in if \<bar>y\<bar> \<ge> 2 powi 1024
           then (if x > 0 then PosInfinity else NegInfinity)
           else Fin y)"

section \<open>Cumulative curve: \<^verbatim>\<open>toCum\<close>\<close>

text \<open>
  \<^verbatim>\<open>
  function toCum(retArr: number[]) {
    let v = 1;
    return retArr.map((r) => (v *= 1 + r));
  }
  \<close>
  The callback of \<^verbatim>\<open>map\<close> updates the variable \<^verbatim>\<open>v\<close> and yields its new value;
  \<open>toCum_from v\<close> is the traversal started with that value of the variable.
\<close>

fun toCum_from :: "real \<Rightarrow> real list \<Rightarrow> real list" where
  "toCum_from v [] = []"
| "toCum_from v (r # rs) = (let v' = v * (1 + r) in v' # toCum_from v' rs)"

definition toCum :: "real list \<Rightarrow> real list" where
  "toCum retArr = toCum_from 1 retArr"

section \<open>Maximum drawdown: \<^verbatim>\<open>maxDrawdownFromReturns\<close>\<close>

text \<open>
  \<^verbatim>\<open>
  function maxDrawdownFromReturns(ret: number[]) {
    let peak = 1;
    let nav = 1;
    let maxdd = 0;
    for (const r of ret) {
      nav *= 1 + r;
      if (nav > peak) peak = nav;
      const dd = nav / peak - 1;
      if (dd < maxdd) maxdd = dd;
    }
    return maxdd;
  }
  \<close>
  The three variables of the loop are the arguments of \<open>dd_loop\<close>. The divisor
  \<^verbatim>\<open>peak\<close> starts at 1 and only grows, so the division is never by zero.
\<close>

fun dd_loop :: "real \<Rightarrow> real \<Rightarrow> real \<Rightarrow> real list \<Rightarrow> real" where
  "dd_loop peak nav maxdd [] = maxdd"
| "dd_loop peak nav maxdd (r # rs) =
     (let nav' = nav * (1 + r);
          peak' = (if nav' > peak then nav' else peak);
          dd = nav' / peak' - 1;
          maxdd' = (if dd < maxdd then dd else maxdd)
      in dd_loop peak' nav' maxdd' rs)"

definition maxDrawdownFromReturns :: "real list \<Rightarrow> real" where
  "maxDrawdownFromReturns ret = dd_loop 1 1 0 ret"

text \<open>
  The specification's reading of the drawdown: the running peak of the curve that starts
  at the implicit value 1, and the drawdown of each step against it.
\<close>

definition running_peak :: "real list \<Rightarrow> nat \<Rightarrow> real" where
  "running_peak vs i = Max (set (1 # take (Suc i) vs))"

definition drawdown_at :: "real list \<Rightarrow> nat \<Rightarrow> real" where
  "drawdown_at vs i = vs ! i / running_peak vs i - 1"

definition drawdowns :: "real list \<Rightarrow> real list" where
  "drawdowns vs = map (drawdown_at vs) [0..<length vs]"


section \<open>Risk and return metrics: \<^verbatim>\<open>calcMetricsFromDailyRet\<close>\<close>

text \<open>
  \<^verbatim>\<open>
  type MetricRow = { factor: string; ann_return: number; ann_vol: number;
                     sharpe: number | null; maxdd: number };
  \<close>
  \<open>None\<close> in the field \<open>sharpe\<close> is \<^verbatim>\<open>null\<close>.
\<close>

record MetricRow =
  factor :: string
  ann_return :: number
  ann_vol :: number
  sharpe :: "double option"
  maxdd :: real

text \<open>
  \<^verbatim>\<open>
  function calcMetricsFromDailyRet(factor, ret, rfAnnual, freq = 252): MetricRow {
    if (!ret.length) return { factor, ann_return: 0, ann_vol: 0, sharpe: null, maxdd: 0 };
    let nav = 1;
    for (const r of ret) nav *= 1 + r;
    const n = ret.length;
    const ann_return = Math.pow(nav, freq / n) - 1;
    const mean = ret.reduce((a, b) => a + b, 0) / n;
    const var_ = ret.reduce((a, r) => a + (r - mean) ** 2, 0) / Math.max(1, n - 1);
    const ann_vol = Math.sqrt(var_ * freq);
    const rfDaily = rfAnnual / freq;
    const ex = ret.map((r) => r - rfDaily);
    const exMean = ex.reduce((a, b) => a + b, 0) / n;
    const exVar = ex.reduce((a, r) => a + (r - exMean) ** 2, 0) / Math.max(1, n - 1);
    const exVol = Math.sqrt(exVar * freq);
    const sharpe = exVol === 0 ? null : (exMean * freq) / exVol;
    const maxdd = maxDrawdownFromReturns(ret);
    return { factor, ann_return, ann_vol, sharpe, maxdd };
  }
  \<close>
  Every call in the repository passes \<^verbatim>\<open>freq = 252\<close>; the model keeps the parameter.
  The variable \<^verbatim>\<open>var_\<close> is \<open>var'\<close> in the model.

  \<open>calc_sharpe\<close> is the part from \<^verbatim>\<open>rfDaily\<close> to \<^verbatim>\<open>sharpe\<close>, reached with a series that
  is not empty. It is computed in doubles, each operation rounded by \<open>fl\<close>, since its
  result depends on the test \<^verbatim>\<open>exVol === 0\<close> of a computed number. The count \<^verbatim>\<open>n\<close> and
  \<^verbatim>\<open>Math.max(1, n - 1)\<close> are integers and exact.
  The returns, the rate and \<open>freq\<close> are the reals that the doubles of the input stand
  for.
\<close>

definition calc_sharpe :: "(real \<Rightarrow> double) \<Rightarrow> real list \<Rightarrow> real \<Rightarrow> real \<Rightarrow> double option" where
  "calc_sharpe fl rs rfAnnual freq =
     (let n = real (length rs);
          rfDaily = ddiv fl (Fin rfAnnual) (Fin freq);
          ex = map (\<lambda>r. dsub fl (Fin r) rfDaily) rs;
          exMean = ddiv fl (foldl (\<lambda>a b. dadd fl a b) (Fin 0) ex) (Fin n);
          exVar = ddiv fl (foldl (\<lambda>a r. dadd fl a (dsquare fl (dsub fl r exMean))) (Fin 0) ex)
                    (Fin (max 1 (n - 1)));
          exVol = dsqrt fl (dmul fl exVar (Fin freq))
      in if exVol = Fin 0 then None
         else Some (ddiv fl (dmul fl exMean (Fin freq)) exVol))"

definition calcMetricsFromDailyRet ::
  "(real \<Rightarrow> double) \<Rightarrow> string \<Rightarrow> real list \<Rightarrow> real \<Rightarrow> real \<Rightarrow> MetricRow" where
  "calcMetricsFromDailyRet fl fac rs rfAnnual freq =
     (if length rs = 0
      then \<lparr>factor = fac, ann_return = Finite 0, ann_vol = Finite 0, sharpe = None, maxdd = 0\<rparr>
      else
        let nav = foldl (\<lambda>nav r. nav * (1 + r)) 1 rs;
            n = real (length rs);
            ann_return = (case Math_pow nav (freq / n) of
                            Finite p \<Rightarrow> Finite (p - 1) | NonFinite \<Rightarrow> NonFinite);
            mean = foldl (\<lambda>a b. a + b) 0 rs / n;
            var' = foldl (\<lambda>a r. a + (r - mean) ^ 2) 0 rs / max 1 (n - 1);
            ann_vol = Math_sqrt (var' * freq);
            sharpe = calc_sharpe fl rs rfAnnual freq;
            maxdd = maxDrawdownFromReturns rs
        in \<lparr>factor = fac, ann_return = ann_return, ann_vol = ann_vol,
            sharpe = sharpe, maxdd = maxdd\<rparr>)"

text \<open>
  The statistics in the specification's words: the mean, the sample variance with Bessel's
  divisor \<open>n - 1\<close> clamped to 1, the sample standard deviation, and the per-period excess
  returns over the risk-free rate.
\<close>

definition mean_of :: "real list \<Rightarrow> real" where
  "mean_of xs = sum_list xs / real (length xs)"










section \<open>Date range filter: \<^verbatim>\<open>parseDate\<close> and \<^verbatim>\<open>clipByRange\<close>\<close>

text \<open>
  \<^verbatim>\<open>
  type ReturnsResp = { name?: string; factor?: string; dates: string[]; ret: number[] };
  \<close>
  The record is polymorphic in the element type of \<open>ret\<close>. \<^verbatim>\<open>clipByRange\<close> never looks
  at an element, but it reads \<^verbatim>\<open>d.ret[i]\<close> for every index of \<^verbatim>\<open>d.dates\<close>, and that read
  is \<^verbatim>\<open>undefined\<close> when \<open>ret\<close> is the shorter array: its elements are \<open>'a option\<close> there,
  \<open>None\<close> being \<^verbatim>\<open>undefined\<close>.
\<close>

record 'a ReturnsResp =
  name :: "string option"
  factor :: "string option"
  dates :: "string list"
  ret :: "'a list"

text \<open>
  \<^verbatim>\<open>
  function parseDate(s: string) {
    const d = new Date(s);
    return Number.isNaN(d.getTime()) ? null : d;
  }
  \<close>
  How \<^verbatim>\<open>new Date(s)\<close> reads a string is the host's business (ECMAScript fixes it for the
  ISO formats only), so the model takes it as the parameter \<open>getTime\<close>: the time value of
  \<^verbatim>\<open>new Date(s)\<close> in milliseconds, \<open>None\<close> for \<^verbatim>\<open>NaN\<close>. A valid \<^verbatim>\<open>Date\<close> is identified
  with its time value, which is what \<^verbatim>\<open>>=\<close> and \<^verbatim>\<open><=\<close> compare.
\<close>

definition parseDate :: "(string \<Rightarrow> int option) \<Rightarrow> string \<Rightarrow> int option" where
  "parseDate getTime s = (case getTime s of None \<Rightarrow> None | Some t \<Rightarrow> Some t)"

text \<open>
  \<^verbatim>\<open>
  function clipByRange(d: ReturnsResp, start: string, end: string): ReturnsResp {
    const s = parseDate(start);
    const e = parseDate(end);
    if (!s || !e) return d;
    const outDates: string[] = [];
    const outRet: number[] = [];
    for (let i = 0; i < d.dates.length; i++) {
      const di = parseDate(d.dates[i]);
      if (!di) continue;
      if (di >= s && di <= e) {
        outDates.push(d.dates[i]);
        outRet.push(d.ret[i]);
      }
    }
    return { ...d, dates: outDates, ret: outRet };
  }
  \<close>
  \<open>clip_step\<close> is one pass of the loop body on the pair \<open>(outDates, outRet)\<close>.
\<close>

definition read_ret :: "'a option list \<Rightarrow> nat \<Rightarrow> 'a option" where
  "read_ret xs i = (if i < length xs then xs ! i else None)"

definition clip_step ::
  "(string \<Rightarrow> int option) \<Rightarrow> int \<Rightarrow> int \<Rightarrow> ('a option) ReturnsResp
    \<Rightarrow> string list \<times> 'a option list \<Rightarrow> nat \<Rightarrow> string list \<times> 'a option list" where
  "clip_step getTime s e d acc i =
     (case acc of (outDates, outRet) \<Rightarrow>
        (case parseDate getTime (dates d ! i) of
           None \<Rightarrow> (outDates, outRet)
         | Some di \<Rightarrow>
             if di \<ge> s \<and> di \<le> e
             then (outDates @ [dates d ! i], outRet @ [read_ret (ret d) i])
             else (outDates, outRet)))"

definition clipByRange ::
  "(string \<Rightarrow> int option) \<Rightarrow> ('a option) ReturnsResp \<Rightarrow> string \<Rightarrow> string
    \<Rightarrow> ('a option) ReturnsResp" where
  "clipByRange getTime d start en =
     (case parseDate getTime start of
        None \<Rightarrow> d
      | Some s \<Rightarrow>
          (case parseDate getTime en of
             None \<Rightarrow> d
           | Some e \<Rightarrow>
               (case foldl (clip_step getTime s e d) ([], []) [0..<length (dates d)] of
                  (outDates, outRet) \<Rightarrow> d\<lparr>dates := outDates, ret := outRet\<rparr>)))"

text \<open>
  The specification's reading: an observation is kept when its date parses and the parsed
  date lies in the closed interval.
\<close>

definition in_range :: "(string \<Rightarrow> int option) \<Rightarrow> int \<Rightarrow> int \<Rightarrow> string \<Rightarrow> bool" where
  "in_range getTime s e ds =
     (case parseDate getTime ds of None \<Rightarrow> False | Some t \<Rightarrow> s \<le> t \<and> t \<le> e)"

definition kept_indices ::
  "(string \<Rightarrow> int option) \<Rightarrow> int \<Rightarrow> int \<Rightarrow> string list \<Rightarrow> nat list" where
  "kept_indices getTime s e ds = filter (\<lambda>i. in_range getTime s e (ds ! i)) [0..<length ds]"

section \<open>Event alignment: \<^verbatim>\<open>gwSignalTraces\<close>\<close>

text \<open>
  \<^verbatim>\<open>
  events?: { type: "trough" | "peak"; date: string; r_6m: number | null;
             r_12m: number | null }[];
  \<close>
  The alignment reads \<open>type\<close> and \<open>date\<close> only.
\<close>

datatype event_type = Trough | Peak

record event =
  type :: event_type
  date :: string

text \<open>
  \<^verbatim>\<open>Array.prototype.findIndex\<close>: the first index whose element satisfies the predicate,
  \<open>None\<close> for the result \<^verbatim>\<open>-1\<close>.
\<close>

fun findIndex :: "('a \<Rightarrow> bool) \<Rightarrow> 'a list \<Rightarrow> nat option" where
  "findIndex P [] = None"
| "findIndex P (x # xs) = (if P x then Some 0 else map_option Suc (findIndex P xs))"

text \<open>An array read \<^verbatim>\<open>y[idx]\<close>: \<open>None\<close> is the \<^verbatim>\<open>undefined\<close> of an index out of range.\<close>

definition js_nth :: "'a list \<Rightarrow> nat \<Rightarrow> 'a option" where
  "js_nth xs i = (if i < length xs then Some (xs ! i) else None)"

record markers =
  peaksX :: "string list"
  peaksY :: "real option list"
  troughX :: "string list"
  troughY :: "real option list"

record signal_traces =
  benchX :: "string list"
  benchY :: "real list"
  marks :: markers
  shapes :: "(string \<times> event_type) list"

text \<open>
  \<^verbatim>\<open>
  const gwSignalTraces = useMemo(() => {
    if (!benchSeries?.dates?.length || !benchSeries?.ret?.length) return null;
    const x = benchSeries.dates;
    const y = toCum(benchSeries.ret);
    const eventPool: { type: "trough" | "peak"; date: string }[] = [];
    const anyFactor = Object.keys(gwData)[0];
    if (anyFactor && gwData[anyFactor]?.events?.length) {
      for (const e of gwData[anyFactor].events || []) {
        if (e?.date && (e.type === "trough" || e.type === "peak"))
          eventPool.push({ type: e.type, date: e.date });
      }
    }
    const peaksX = [], peaksY = [], troughX = [], troughY = [];
    for (const e of eventPool) {
      const idx = x.findIndex((d) => d >= e.date);
      if (idx === -1) continue;
      if (e.type === "peak") { peaksX.push(x[idx]); peaksY.push(y[idx]); }
      else { troughX.push(x[idx]); troughY.push(y[idx]); }
    }
    const shapes = eventPool.map((e) => ({ ..., x0: e.date, x1: e.date, ... }));
    const traces = [ { ..., x, y }, { ..., x: peaksX, y: peaksY },
                     { ..., x: troughX, y: troughY } ];
    return { traces, shapes };
  }, [benchSeries, gwData, gwBenchmark]);
  \<close>
  The dates are strings and \<^verbatim>\<open>d >= e.date\<close> compares them as strings, character by
  character, a proper prefix being the smaller: the order of \<^typ>\<open>string\<close> here. The
  second argument of the model is \<^verbatim>\<open>gwData[anyFactor]?.events\<close>, \<open>None\<close> when no factor is
  loaded (or its key is the empty string) or the field is absent. An event with the empty
  string as its date is falsy in the test \<^verbatim>\<open>e?.date\<close> and does not enter the pool.
\<close>

definition eventPool :: "event list option \<Rightarrow> event list" where
  "eventPool gwEvents =
     (case gwEvents of None \<Rightarrow> [] | Some evs \<Rightarrow> filter (\<lambda>e. date e \<noteq> []) evs)"

definition align_step :: "string list \<Rightarrow> real list \<Rightarrow> markers \<Rightarrow> event \<Rightarrow> markers" where
  "align_step x y m e =
     (case findIndex (\<lambda>d. d \<ge> date e) x of
        None \<Rightarrow> m
      | Some idx \<Rightarrow>
          if type e = Peak
          then m\<lparr>peaksX := peaksX m @ [x ! idx], peaksY := peaksY m @ [js_nth y idx]\<rparr>
          else m\<lparr>troughX := troughX m @ [x ! idx], troughY := troughY m @ [js_nth y idx]\<rparr>)"

definition gwSignalTraces ::
  "real ReturnsResp option \<Rightarrow> event list option \<Rightarrow> signal_traces option" where
  "gwSignalTraces benchSeries gwEvents =
     (case benchSeries of
        None \<Rightarrow> None
      | Some b \<Rightarrow>
          if length (dates b) = 0 \<or> length (ret b) = 0 then None
          else
            let x = dates b;
                y = toCum (ret b);
                pool = eventPool gwEvents;
                m = foldl (align_step x y)
                      \<lparr>peaksX = [], peaksY = [], troughX = [], troughY = []\<rparr> pool
            in Some \<lparr>benchX = x, benchY = y, marks = m,
                     shapes = map (\<lambda>e. (date e, type e)) pool\<rparr>)"

text \<open>
  The specification's reading of the alignment of one event: the marker at the first
  observation whose date is not before the event's, if there is one.
\<close>

definition marker_of :: "string list \<Rightarrow> real list \<Rightarrow> event \<Rightarrow> (string \<times> real option) option" where
  "marker_of x y e =
     (case findIndex (\<lambda>d. date e \<le> d) x of
        None \<Rightarrow> None
      | Some i \<Rightarrow> Some (x ! i, js_nth y i))"

text \<open>The markers of one kind for the events of a pool, in the order of the events.\<close>

definition aligned_markers ::
  "string list \<Rightarrow> real list \<Rightarrow> event_type \<Rightarrow> event list \<Rightarrow> (string \<times> real option) list" where
  "aligned_markers x y k pool = List.map_filter (marker_of x y) (filter (\<lambda>e. type e = k) pool)"


text \<open>
  The specification's date strings: an ISO-8601 calendar date \<^verbatim>\<open>YYYY-MM-DD\<close> of a year,
  a month and a day. It serves to compare the string order with the order of the
  calendar (lemma \<open>iso_date_le_iff\<close>).
\<close>

definition digit :: "nat \<Rightarrow> char" where
  "digit n = ''0123456789'' ! n"

definition digits2 :: "nat \<Rightarrow> string" where
  "digits2 n = [digit (n div 10), digit (n mod 10)]"

definition iso_date :: "nat \<Rightarrow> nat \<Rightarrow> nat \<Rightarrow> string" where
  "iso_date y m d = digits2 (y div 100) @ digits2 (y mod 100) @ ''-'' @ digits2 m @ ''-'' @ digits2 d"


section \<open>Rank heatmap encoding\<close>

text \<open>
  The heatmap artifact, as the component \<^verbatim>\<open>Home\<close> reads it: \<^verbatim>\<open>months\<close>,
  \<^verbatim>\<open>ranked_factors\<close> and \<^verbatim>\<open>ranked_returns\<close> (both indexed by month, then by rank) and
  the optional \<^verbatim>\<open>factors\<close>. A value of \<^verbatim>\<open>ranked_returns\<close> is a number, \<^verbatim>\<open>null\<close>, or
  the \<^verbatim>\<open>undefined\<close> of a missing entry; \<^verbatim>\<open>NaN\<close> is a number of its own here, since the
  code tests for it.
\<close>

datatype cell_value = Null | Undefined | NaN | Num real

record heatmap =
  months :: "string list"
  ranked_factors :: "string list list"
  ranked_returns :: "cell_value list list"
  factors :: "string list option"


text \<open>
  \<^verbatim>\<open>Array.from(new Set(xs))\<close>: the distinct elements in the order of their first
  occurrence.
\<close>

definition uniq :: "'a list \<Rightarrow> 'a list" where
  "uniq xs = foldl (\<lambda>acc x. if x \<in> set acc then acc else acc @ [x]) [] xs"

text \<open>
  \<^verbatim>\<open>
  const factorToCode = {};
  factorList.forEach((f, i) => factorToCode[f] = i);
  ...
  z[row][col] = factorToCode[fname] ?? -1;
  \<close>
  \<^verbatim>\<open>factorToCode\<close> is an ordinary object: its prototype is \<^verbatim>\<open>Object.prototype\<close>. The
  model keeps the own properties as a map. An assignment creates or overwrites an own
  property, except for the key \<^verbatim>\<open>__proto__\<close>, whose inherited setter ignores a number.
  A read yields the own property if there is one; otherwise the member of
  \<^verbatim>\<open>Object.prototype\<close> of that name if there is one (a function, or the prototype object
  for \<^verbatim>\<open>__proto__\<close>), which is neither \<^verbatim>\<open>null\<close> nor \<^verbatim>\<open>undefined\<close>, so that \<^verbatim>\<open>??\<close> keeps
  it; otherwise \<^verbatim>\<open>undefined\<close>, which \<^verbatim>\<open>??\<close> replaces by \<^verbatim>\<open>-1\<close>.
\<close>

definition Object_prototype_keys :: "string list" where
  "Object_prototype_keys =
     [''constructor'', ''hasOwnProperty'', ''isPrototypeOf'', ''propertyIsEnumerable'',
      ''toLocaleString'', ''toString'', ''valueOf'', ''__proto__'',
      ''__defineGetter__'', ''__defineSetter__'', ''__lookupGetter__'', ''__lookupSetter__'']"

datatype z_value = Code int | Inherited string

definition obj_set :: "(string \<rightharpoonup> nat) \<Rightarrow> string \<Rightarrow> nat \<Rightarrow> (string \<rightharpoonup> nat)" where
  "obj_set obj k v = (if k = ''__proto__'' then obj else obj(k \<mapsto> v))"

definition obj_get_or_minus1 :: "(string \<rightharpoonup> nat) \<Rightarrow> string \<Rightarrow> z_value" where
  "obj_get_or_minus1 obj k =
     (case obj k of
        Some i \<Rightarrow> Code (int i)
      | None \<Rightarrow> if k \<in> set Object_prototype_keys then Inherited k else Code (- 1))"

definition factorToCode :: "string list \<Rightarrow> (string \<rightharpoonup> nat)" where
  "factorToCode factorList =
     foldl (\<lambda>obj (f, i). obj_set obj f i) Map.empty (zip factorList [0..<length factorList])"

text \<open>
  The cell text. \<^verbatim>\<open>src/app/page.tsx\<close>:
  \<^verbatim>\<open>
  const pct = r === null || r === undefined ? "NA" : `${(r * 100).toFixed(1)}%`;
  text[row][col] = `<b style="font-size:11px">${fname}</b><br>${pct}`;
  \<close>
  and the variant of \<^verbatim>\<open>src/unnamed/part_001\<close>:
  \<^verbatim>\<open>
  const pct = r === null || r === undefined || Number.isNaN(r as any)
    ? "NA" : `${((r as number) * 100).toFixed(2)}%`;
  text[row][col] =
    `<span style="font-size:10px; font-weight:520">${fname}</span><br>` +
    `<span style="font-size:11px; font-weight:530">${pct}</span>`;
  \<close>
  \<^verbatim>\<open>Number.prototype.toFixed\<close> on a finite number is the parameter \<open>toFixed\<close>; on \<^verbatim>\<open>NaN\<close>
  it is the string \<^verbatim>\<open>NaN\<close>. \<open>times100_toFixed\<close> is \<^verbatim>\<open>(r * 100).toFixed(k)\<close>: the product is
  \<^verbatim>\<open>NaN\<close> for \<^verbatim>\<open>NaN\<close> and for \<^verbatim>\<open>undefined\<close>, and 0 for \<^verbatim>\<open>null\<close> (the two tests of \<^verbatim>\<open>pct\<close>
  keep \<^verbatim>\<open>null\<close> and \<^verbatim>\<open>undefined\<close> away from it).
\<close>

definition times100_toFixed :: "(real \<Rightarrow> nat \<Rightarrow> string) \<Rightarrow> cell_value \<Rightarrow> nat \<Rightarrow> string" where
  "times100_toFixed toFixed r k =
     (case r of
        Num x \<Rightarrow> toFixed (x * 100) k
      | NaN \<Rightarrow> ''NaN''
      | Undefined \<Rightarrow> ''NaN''
      | Null \<Rightarrow> toFixed 0 k)"

definition pct :: "(real \<Rightarrow> nat \<Rightarrow> string) \<Rightarrow> cell_value \<Rightarrow> string" where
  "pct toFixed r =
     (if r = Null \<or> r = Undefined then ''NA'' else times100_toFixed toFixed r 1 @ ''%'')"

definition cell_text :: "(real \<Rightarrow> nat \<Rightarrow> string) \<Rightarrow> string \<Rightarrow> cell_value \<Rightarrow> string" where
  \<open>cell_text toFixed fname r =
     ''<b style="font-size:11px">'' @ fname @ ''</b><br>'' @ pct toFixed r\<close>



text \<open>
  \<^verbatim>\<open>
  const months = heatmap.months;
  const rankedFactors = heatmap.ranked_factors;
  const rankedReturns = heatmap.ranked_returns;
  const N = rankedFactors?.[0]?.length ?? 0;
  const factorList = heatmap.factors || Array.from(new Set(rankedFactors.flat()));
  ...
  const z = Array.from({ length: N }, () => Array(months.length).fill(0));
  const text = Array.from({ length: N }, () => Array(months.length).fill(""));
  for (let col = 0; col < months.length; col++) {
    for (let row = 0; row < N; row++) {
      const fname = rankedFactors[col]?.[row] ?? "";
      const r = rankedReturns?.[col]?.[row];
      z[row][col] = factorToCode[fname] ?? -1;
      const pct = ...;
      text[row][col] = ...;
    }
  }
  \<close>
  The two files differ in the cell text only, the parameter \<open>cellText\<close> of the model.
\<close>

definition N_of :: "string list list \<Rightarrow> nat" where
  "N_of rankedFactors = (case rankedFactors of [] \<Rightarrow> 0 | c # _ \<Rightarrow> length c)"

definition factorList_of :: "heatmap \<Rightarrow> string list" where
  "factorList_of h =
     (case factors h of Some fs \<Rightarrow> fs | None \<Rightarrow> uniq (concat (ranked_factors h)))"

definition fname_at :: "string list list \<Rightarrow> nat \<Rightarrow> nat \<Rightarrow> string" where
  "fname_at rankedFactors col row =
     (if col < length rankedFactors \<and> row < length (rankedFactors ! col)
      then rankedFactors ! col ! row else [])"

definition r_at :: "cell_value list list \<Rightarrow> nat \<Rightarrow> nat \<Rightarrow> cell_value" where
  "r_at rankedReturns col row =
     (if col < length rankedReturns \<and> row < length (rankedReturns ! col)
      then rankedReturns ! col ! row else Undefined)"

definition fill_cell ::
  "(string \<Rightarrow> cell_value \<Rightarrow> string) \<Rightarrow> heatmap \<Rightarrow> (string \<rightharpoonup> nat) \<Rightarrow> nat
    \<Rightarrow> z_value list list \<times> string list list \<Rightarrow> nat \<Rightarrow> z_value list list \<times> string list list" where
  "fill_cell cellText h obj col acc row =
     (case acc of (z, text) \<Rightarrow>
        let fname = fname_at (ranked_factors h) col row;
            r = r_at (ranked_returns h) col row
        in (z[row := (z ! row)[col := obj_get_or_minus1 obj fname] ],
            text[row := (text ! row)[col := cellText fname r] ]))"

record heatmap_plot =
  plot_z :: "z_value list list"
  plot_text :: "string list list"

definition encode_heatmap :: "(string \<Rightarrow> cell_value \<Rightarrow> string) \<Rightarrow> heatmap \<Rightarrow> heatmap_plot" where
  "encode_heatmap cellText h =
     (let N = N_of (ranked_factors h);
          obj = factorToCode (factorList_of h);
          z0 = replicate N (replicate (length (months h)) (Code 0));
          text0 = replicate N (replicate (length (months h)) [])
      in case foldl (\<lambda>acc col. foldl (fill_cell cellText h obj col) acc [0..<N])
                (z0, text0) [0..<length (months h)] of
           (z, text) \<Rightarrow> \<lparr>plot_z = z, plot_text = text\<rparr>)"

section \<open>Properties of the cumulative curve\<close>

lemma length_toCum_from: "length (toCum_from v rs) = length rs"
  by (induction rs arbitrary: v) (simp_all add: Let_def)

lemma toCum_from_nth:
  "i < length rs \<Longrightarrow> toCum_from v rs ! i = v * (\<Prod>j\<le>i. 1 + rs ! j)"
proof (induction rs arbitrary: v i)
  case Nil
  then show ?case by simp
next
  case (Cons r rs)
  show ?case
  proof (cases i)
    case 0
    then show ?thesis by (simp add: Let_def)
  next
    case (Suc k)
    with Cons.prems have k: "k < length rs" by simp
    have "toCum_from v (r # rs) ! i = toCum_from (v * (1 + r)) rs ! k"
      using Suc by (simp add: Let_def)
    also have "\<dots> = v * (1 + r) * (\<Prod>j\<le>k. 1 + rs ! j)"
      by (rule Cons.IH [OF k])
    also have "\<dots> = v * (\<Prod>j\<le>Suc k. 1 + (r # rs) ! j)"
      by (subst prod.atMost_Suc_shift) (simp add: mult.assoc)
    finally show ?thesis using Suc by simp
  qed
qed

text \<open>
  C6. For every sequence of periodic returns \<open>r\<^sub>1..r\<^sub>n\<close> the cumulative curve builder
  returns a sequence of the same length whose \<open>i\<close>-th value is the product of
  \<open>1 + r\<^sub>j\<close> over the returns up to and including the \<open>i\<close>-th (the curve starts from the
  implicit value 1), and the empty input yields the empty output.
\<close>

theorem toCum_prefix_products:
  "length (toCum rs) = length rs
   \<and> (\<forall>i<length rs. toCum rs ! i = (\<Prod>j\<le>i. 1 + rs ! j))
   \<and> toCum [] = []"
  by (simp add: toCum_def length_toCum_from toCum_from_nth)

theorem toCum_prefix_products_witness:
  "length (toCum [1, -1/2, 2]) = 3
   \<and> toCum [1, -1/2, 2] ! 2 = 3
   \<and> toCum [1, -1/2, 2] = [2, 1, 3]"
  using toCum_prefix_products [of "[1, -1/2, 2]"]
  by (simp add: toCum_def Let_def)

section \<open>Properties of the maximum drawdown\<close>

lemma dd_loop_le: "dd_loop peak nav mdd rs \<le> mdd"
proof (induction rs arbitrary: peak nav mdd)
  case Nil
  then show ?case by simp
next
  case (Cons r rs)
  define nav' where "nav' = nav * (1 + r)"
  define peak' where "peak' = (if nav' > peak then nav' else peak)"
  define dd where "dd = nav' / peak' - 1"
  define mdd' where "mdd' = (if dd < mdd then dd else mdd)"
  have "dd_loop peak nav mdd (r # rs) = dd_loop peak' nav' mdd' rs"
    by (simp add: Let_def nav'_def peak'_def dd_def mdd'_def)
  also have "\<dots> \<le> mdd'" by (rule Cons.IH)
  also have "\<dots> \<le> mdd" by (simp add: mdd'_def)
  finally show ?case .
qed

lemma Max_insert_max:
  "finite S \<Longrightarrow> Max (insert p (insert (v :: real) S)) = Max (insert (max p v) S)"
  by (cases "S = {}") (simp_all add: max.assoc)

lemma dd_loop_zero_iff:
  "0 < peak \<Longrightarrow> mdd \<le> 0 \<Longrightarrow>
   dd_loop peak nav mdd rs = 0 \<longleftrightarrow> mdd = 0 \<and> sorted (peak # toCum_from nav rs)"
proof (induction rs arbitrary: peak nav mdd)
  case Nil
  then show ?case by simp
next
  case (Cons r rs)
  define nav' where "nav' = nav * (1 + r)"
  define peak' where "peak' = (if nav' > peak then nav' else peak)"
  define dd where "dd = nav' / peak' - 1"
  define mdd' where "mdd' = (if dd < mdd then dd else mdd)"
  have pos: "0 < peak'" using Cons.prems by (simp add: peak'_def)
  have ddle: "dd \<le> 0" using pos by (simp add: dd_def peak'_def)
  have mle: "mdd' \<le> 0" using ddle Cons.prems by (simp add: mdd'_def)
  have dd0: "dd = 0 \<longleftrightarrow> peak \<le> nav'" using pos by (auto simp: dd_def peak'_def)
  have m0: "mdd' = 0 \<longleftrightarrow> mdd = 0 \<and> peak \<le> nav'"
    using ddle Cons.prems dd0 by (auto simp: mdd'_def)
  have step: "dd_loop peak nav mdd (r # rs) = dd_loop peak' nav' mdd' rs"
    by (simp add: Let_def nav'_def peak'_def dd_def mdd'_def)
  have "dd_loop peak' nav' mdd' rs = 0 \<longleftrightarrow> mdd' = 0 \<and> sorted (peak' # toCum_from nav' rs)"
    by (rule Cons.IH [OF pos mle])
  also have "\<dots> \<longleftrightarrow> mdd = 0 \<and> sorted (peak # nav' # toCum_from nav' rs)"
    using m0 by (auto simp: peak'_def)
  finally show ?case unfolding step by (simp add: Let_def nav'_def)
qed

lemma dd_loop_Min:
  "dd_loop peak nav mdd rs =
     Min (set (mdd # map (\<lambda>i. toCum_from nav rs ! i / Max (set (peak # take (Suc i) (toCum_from nav rs))) - 1)
       [0..<length rs]))"
proof (induction rs arbitrary: peak nav mdd)
  case Nil
  then show ?case by simp
next
  case (Cons r rs)
  define nav' where "nav' = nav * (1 + r)"
  define peak' where "peak' = (if nav' > peak then nav' else peak)"
  define dd where "dd = nav' / peak' - 1"
  define mdd' where "mdd' = (if dd < mdd then dd else mdd)"
  define vs where "vs = toCum_from nav' rs"
  define f where "f = (\<lambda>p ws i. (ws ! i :: real) / Max (set (p # take (Suc i) ws)) - 1)"
  have step: "dd_loop peak nav mdd (r # rs) = dd_loop peak' nav' mdd' rs"
    by (simp add: Let_def nav'_def peak'_def dd_def mdd'_def)
  have cum: "toCum_from nav (r # rs) = nav' # vs"
    by (simp add: Let_def nav'_def vs_def)
  have pk: "peak' = max peak nav'" by (simp add: peak'_def max_def)
  have f0: "f peak (nav' # vs) 0 = dd" by (simp add: f_def dd_def pk)
  have fS: "f peak (nav' # vs) (Suc i) = f peak' vs i" for i
  proof -
    have "Max (insert peak (insert nav' (set (take (Suc i) vs)))) = Max (insert peak' (set (take (Suc i) vs)))"
      unfolding pk by (rule Max_insert_max) simp
    then show ?thesis by (simp add: f_def)
  qed
  have idx: "[0..<length (r # rs)] = 0 # map Suc [0..<length rs]"
    by (simp add: upt_conv_Cons map_Suc_upt del: upt_Suc)
  have A: "map (f peak (nav' # vs)) [0..<length (r # rs)] = dd # map (f peak' vs) [0..<length rs]"
    unfolding idx by (simp add: f0 fS comp_def)
  have B: "Min (set (mdd # dd # xs)) = Min (set (mdd' # xs))" for xs
    by (cases "xs = []") (auto simp: mdd'_def min_def)
  have "Min (set (mdd # map (f peak (nav' # vs)) [0..<length (r # rs)])) =
      Min (set (mdd' # map (f peak' vs) [0..<length rs]))"
    unfolding A by (rule B)
  also have "\<dots> = dd_loop peak' nav' mdd' rs"
    using Cons.IH [of peak' nav' mdd'] by (simp add: f_def vs_def)
  finally show ?case unfolding step cum f_def by simp
qed

lemma running_peak_ge: "i < length vs \<Longrightarrow> vs ! i \<le> running_peak vs i \<and> 1 \<le> running_peak vs i"
proof -
  assume i: "i < length vs"
  have "vs ! i = take (Suc i) vs ! i" by simp
  moreover have "i < length (take (Suc i) vs)" using i by simp
  ultimately have "vs ! i \<in> set (take (Suc i) vs)" by (metis nth_mem)
  then show ?thesis by (simp add: running_peak_def)
qed

lemma drawdown_at_le: "i < length vs \<Longrightarrow> drawdown_at vs i \<le> 0"
proof -
  assume i: "i < length vs"
  from running_peak_ge [OF i] have "vs ! i \<le> running_peak vs i" "0 < running_peak vs i" by auto
  then show ?thesis by (simp add: drawdown_at_def)
qed

lemma Min_drawdowns:
  assumes "vs \<noteq> []"
  shows "Min (set (0 # drawdowns vs)) = Min (set (drawdowns vs))"
proof -
  have ne: "set (drawdowns vs) \<noteq> {}" using assms by (simp add: drawdowns_def)
  have "\<forall>d\<in>set (drawdowns vs). d \<le> 0"
    by (auto simp: drawdowns_def drawdown_at_le)
  with ne have "Min (set (drawdowns vs)) \<le> 0"
    by (meson List.finite_set Min_in order_refl)
  then have "min 0 (Min (set (drawdowns vs))) = Min (set (drawdowns vs))"
    by (rule min_absorb2)
  moreover have "Min (set (0 # drawdowns vs)) = min 0 (Min (set (drawdowns vs)))"
    using ne by (simp del: Min_insert add: Min_insert [OF finite_set])
  ultimately show ?thesis by simp
qed

lemma maxDrawdown_Min: "maxDrawdownFromReturns rs = Min (set (0 # drawdowns (toCum rs)))"
  unfolding maxDrawdownFromReturns_def dd_loop_Min
  by (simp add: drawdowns_def drawdown_at_def running_peak_def toCum_def length_toCum_from)

text \<open>
  C2. For every non-empty return series the maximum drawdown is at most 0, and it is 0
  exactly when the cumulative curve, read from its implicit starting value 1, never
  decreases; it is the most negative of the per-step drawdowns \<open>NAV\<^sub>i / peak\<^sub>i - 1\<close>
  against the running peak of that curve. For the empty series it is 0.
\<close>

theorem maxDrawdown_nonpositive:
  "(rs \<noteq> [] \<longrightarrow>
      maxDrawdownFromReturns rs \<le> 0
      \<and> (maxDrawdownFromReturns rs = 0 \<longleftrightarrow> sorted (1 # toCum rs))
      \<and> maxDrawdownFromReturns rs = Min (set (drawdowns (toCum rs))))
   \<and> maxDrawdownFromReturns [] = 0"
proof -
  have "maxDrawdownFromReturns rs \<le> 0"
    unfolding maxDrawdownFromReturns_def by (rule dd_loop_le)
  moreover have "maxDrawdownFromReturns rs = 0 \<longleftrightarrow> sorted (1 # toCum rs)"
    unfolding maxDrawdownFromReturns_def toCum_def
    using dd_loop_zero_iff [of 1 0 1 rs] by simp
  moreover have "maxDrawdownFromReturns rs = Min (set (drawdowns (toCum rs)))" if "rs \<noteq> []"
  proof -
    from that have "toCum rs \<noteq> []"
      by (metis length_0_conv length_toCum_from toCum_def)
    then show ?thesis using maxDrawdown_Min [of rs] Min_drawdowns by simp
  qed
  moreover have "maxDrawdownFromReturns [] = 0"
    by (simp add: maxDrawdownFromReturns_def)
  ultimately show ?thesis by blast
qed

theorem maxDrawdown_nonpositive_witness:
  "[1, -1/2, 2] \<noteq> ([] :: real list)
   \<and> maxDrawdownFromReturns [1, -1/2, 2] = -1/2
   \<and> toCum [1, -1/2, 2] = [2, 1, 3]
   \<and> \<not> sorted (1 # toCum [1, -1/2, 2])
   \<and> drawdowns (toCum [1, -1/2, 2]) = [0, -1/2, 0]"
  using maxDrawdown_nonpositive [of "[1, -1/2, 2]"]
  by (simp add: toCum_def Let_def drawdowns_def drawdown_at_def running_peak_def upt_rec)

text \<open>
  The implicit starting value is part of the curve in C2: a series whose first return is
  negative has a drawdown at once, whatever the later values of the curve do.
\<close>

lemma maxDrawdown_counts_first_step:
  "sorted (toCum [-1/2, 0]) \<and> \<not> sorted (1 # toCum [-1/2, 0])
   \<and> maxDrawdownFromReturns [-1/2, 0] = -1/2"
proof -
  have c: "toCum [-1/2, 0] = [1/2, 1/2]"
    by (simp add: toCum_def Let_def)
  have "sorted [1/2, 1/2 :: real]"
    by (simp only: sorted2 sorted1) simp
  moreover have "\<not> sorted [1, 1/2, 1/2 :: real]"
    by (simp only: sorted2 sorted1) simp
  moreover have "maxDrawdownFromReturns [-1/2, 0] = -1/2"
    by (simp add: maxDrawdownFromReturns_def Let_def)
  ultimately show ?thesis unfolding c by blast
qed

section \<open>Properties of the metrics calculator\<close>

lemma foldl_add_sum_list: "foldl (\<lambda>a b. a + b) a xs = a + sum_list (xs :: real list)"
  by (induction xs arbitrary: a) simp_all

lemma foldl_add_squares:
  "foldl (\<lambda>a r. a + (r - m) ^ 2) a xs = a + (\<Sum>x\<leftarrow>xs. (x - m) ^ 2)" for a :: real
  by (induction xs arbitrary: a) simp_all

lemma foldl_nav_prod_list:
  "foldl (\<lambda>nav r. nav * (1 + r)) v xs = v * (\<Prod>r\<leftarrow>xs. 1 + r)" for v :: real
  by (induction xs arbitrary: v) (simp_all add: mult.assoc)


subsection \<open>The rounding \<open>binary64\<close>\<close>











subsection \<open>The Sharpe ratio\<close>













subsection \<open>Annualized return and volatility\<close>

text \<open>
  The specification's scenario of three zero returns, in exact arithmetic: no return, no
  volatility, no drawdown.
\<close>

lemma metrics_of_zero_returns:
  "ann_return (calcMetricsFromDailyRet fl fac [0, 0, 0] rf 252) = Finite 0
   \<and> ann_vol (calcMetricsFromDailyRet fl fac [0, 0, 0] rf 252) = Finite 0
   \<and> maxdd (calcMetricsFromDailyRet fl fac [0, 0, 0] rf 252) = 0"
  by (simp add: calcMetricsFromDailyRet_def Math_pow_def Math_sqrt_def
      maxDrawdownFromReturns_def Let_def)

text \<open>
  C4. For every non-empty return series of length \<open>n\<close> and every \<open>freq\<close>, the annualized
  return is \<^verbatim>\<open>Math.pow(NAV, freq / n) - 1\<close>, where \<open>NAV\<close> is the product of \<open>1 + r\<^sub>i\<close> over
  the whole series: the real power \<open>NAV powr (freq / n) - 1\<close> whenever \<open>NAV\<close> is positive.
  For the empty series the annualized return is 0.
\<close>

theorem ann_return_formula:
  "(rs \<noteq> [] \<longrightarrow>
      ann_return (calcMetricsFromDailyRet fl fac rs rf freq) =
        (case Math_pow (\<Prod>r\<leftarrow>rs. 1 + r) (freq / real (length rs)) of
           Finite p \<Rightarrow> Finite (p - 1) | NonFinite \<Rightarrow> NonFinite)
      \<and> (0 < (\<Prod>r\<leftarrow>rs. 1 + r) \<longrightarrow>
           ann_return (calcMetricsFromDailyRet fl fac rs rf freq) =
             Finite ((\<Prod>r\<leftarrow>rs. 1 + r) powr (freq / real (length rs)) - 1)))
   \<and> ann_return (calcMetricsFromDailyRet fl fac [] rf freq) = Finite 0"
proof -
  have a: "ann_return (calcMetricsFromDailyRet fl fac rs rf freq) =
        (case Math_pow (\<Prod>r\<leftarrow>rs. 1 + r) (freq / real (length rs)) of
           Finite p \<Rightarrow> Finite (p - 1) | NonFinite \<Rightarrow> NonFinite)" if "rs \<noteq> []"
    using that by (simp add: calcMetricsFromDailyRet_def Let_def foldl_nav_prod_list)
  have b: "Math_pow b e = Finite (b powr e)" if "0 < b" for b e
    using that by (simp add: Math_pow_def)
  have c: "ann_return (calcMetricsFromDailyRet fl fac [] rf freq) = Finite 0"
    by (simp add: calcMetricsFromDailyRet_def)
  show ?thesis using a b c by simp
qed

theorem ann_return_formula_witness:
  "[1, 1] \<noteq> ([] :: real list) \<and> (0::real) < (\<Prod>r\<leftarrow>[1, 1]. 1 + r)
   \<and> ann_return (calcMetricsFromDailyRet binary64 ''Top300'' [1, 1] 0 4) = Finite 15
   \<and> ann_return (calcMetricsFromDailyRet binary64 ''Top300'' [-3] 0 (1/2)) = NonFinite"
  using ann_return_formula [of "[1, 1]" binary64 "''Top300''" 0 4]
    ann_return_formula [of "[-3]" binary64 "''Top300''" 0 "1/2"]
  by (simp add: Math_pow_def)

text \<open>
  C5. For every non-empty return series of length \<open>n\<close> (and a periods-per-year constant
  that is not negative), the annualized volatility is the sample standard deviation of
  the returns, with the divisor \<open>n - 1\<close>, or 1 when \<open>n = 1\<close>, times \<open>sqrt freq\<close>. For the
  empty series it is 0.
\<close>

theorem ann_vol_formula:
  "(0 \<le> freq \<and> rs \<noteq> [] \<longrightarrow>
      ann_vol (calcMetricsFromDailyRet fl fac rs rf freq) =
        Finite (sqrt ((\<Sum>r\<leftarrow>rs. (r - mean_of rs) ^ 2)
                       / (if length rs = 1 then 1 else real (length rs) - 1))
                * sqrt freq))
   \<and> ann_vol (calcMetricsFromDailyRet fl fac [] rf freq) = Finite 0"
proof -
  have "ann_vol (calcMetricsFromDailyRet fl fac rs rf freq) =
        Finite (sqrt ((\<Sum>r\<leftarrow>rs. (r - mean_of rs) ^ 2)
                       / (if length rs = 1 then 1 else real (length rs) - 1))
                * sqrt freq)" if f: "0 \<le> freq" and ne: "rs \<noteq> []"
  proof -
    define v where "v = (\<Sum>r\<leftarrow>rs. (r - mean_of rs) ^ 2) / max 1 (real (length rs) - 1)"
    have "0 < length rs" using ne by simp
    then have "length rs = 1 \<or> 2 \<le> length rs" by arith
    then have d: "max 1 (real (length rs) - 1) = (if length rs = 1 then 1 else real (length rs) - 1)"
      by (auto simp: max_def)
    have "0 \<le> v" unfolding v_def by (intro divide_nonneg_pos sum_list_nonneg) auto
    with f have nn: "\<not> v * freq < 0" by (simp add: not_less)
    have "ann_vol (calcMetricsFromDailyRet fl fac rs rf freq) = Math_sqrt (v * freq)"
      using ne by (simp add: calcMetricsFromDailyRet_def Let_def foldl_add_sum_list
          foldl_add_squares mean_of_def v_def)
    also have "\<dots> = Finite (sqrt v * sqrt freq)"
      using nn by (simp add: Math_sqrt_def real_sqrt_mult)
    finally show ?thesis by (simp add: v_def d)
  qed
  moreover have "ann_vol (calcMetricsFromDailyRet fl fac [] rf freq) = Finite 0"
    by (simp add: calcMetricsFromDailyRet_def)
  ultimately show ?thesis by blast
qed

theorem ann_vol_formula_witness:
  "(0::real) \<le> 2 \<and> [1, 3] \<noteq> ([] :: real list)
   \<and> ann_vol (calcMetricsFromDailyRet binary64 ''Top300'' [1, 3] 0 2) = Finite 2
   \<and> ann_vol (calcMetricsFromDailyRet binary64 ''Top300'' [5] 0 4) = Finite 0"
  using ann_vol_formula [of 2 "[1, 3]" binary64 "''Top300''" 0]
    ann_vol_formula [of 4 "[5]" binary64 "''Top300''" 0]
  by (simp add: mean_of_def)

section \<open>Properties of the date range filter\<close>

lemma clip_fold:
  "foldl (clip_step gt s e d) (od, orr) js =
     (od @ map (\<lambda>i. dates d ! i) (filter (\<lambda>i. in_range gt s e (dates d ! i)) js),
      orr @ map (read_ret (ret d)) (filter (\<lambda>i. in_range gt s e (dates d ! i)) js))"
proof (induction js arbitrary: od orr)
  case Nil
  then show ?case by simp
next
  case (Cons j js)
  show ?case
  proof (cases "in_range gt s e (dates d ! j)")
    case True
    then have "clip_step gt s e d (od, orr) j = (od @ [dates d ! j], orr @ [read_ret (ret d) j])"
      by (auto simp: clip_step_def in_range_def split: option.splits)
    with True show ?thesis by (simp add: Cons.IH)
  next
    case False
    then have "clip_step gt s e d (od, orr) j = (od, orr)"
      by (auto simp: clip_step_def in_range_def split: option.splits)
    with False show ?thesis by (simp add: Cons.IH)
  qed
qed

lemma clipByRange_parsed:
  assumes "parseDate gt start = Some s" and "parseDate gt en = Some e"
  shows "clipByRange gt d start en =
     d\<lparr>dates := map (\<lambda>i. dates d ! i) (kept_indices gt s e (dates d)),
       ret := map (read_ret (ret d)) (kept_indices gt s e (dates d))\<rparr>"
  using assms by (simp add: clipByRange_def clip_fold kept_indices_def)

lemma clipByRange_unparsed:
  assumes "parseDate gt start = None \<or> parseDate gt en = None"
  shows "clipByRange gt d start en = d"
  using assms by (auto simp: clipByRange_def split: option.splits)

lemma map_nth_filter_upt:
  "map (\<lambda>i. xs ! i) (filter (\<lambda>i. P (xs ! i)) [0..<length xs]) = filter P xs"
proof -
  have "filter P (map (\<lambda>i. xs ! i) [0..<length xs]) = filter P xs"
    by (simp add: map_nth)
  then show ?thesis by (simp add: filter_map comp_def)
qed

lemma kept_dates: "map (\<lambda>i. ds ! i) (kept_indices gt s e ds) = filter (in_range gt s e) ds"
  unfolding kept_indices_def by (rule map_nth_filter_upt)

lemma zip_map_same: "zip (map f xs) (map g xs) = map (\<lambda>x. (f x, g x)) xs"
  by (induction xs) simp_all

lemma kept_zip:
  assumes "length rs = length ds"
  shows "zip (map (\<lambda>i. ds ! i) (kept_indices gt s e ds)) (map (read_ret rs) (kept_indices gt s e ds))
         = filter (\<lambda>(x, r). in_range gt s e x) (zip ds rs)"
proof -
  let ?K = "kept_indices gt s e ds"
  let ?zs = "zip ds rs"
  have len: "length ?zs = length ds" using assms by simp
  have "zip (map (\<lambda>i. ds ! i) ?K) (map (read_ret rs) ?K) = map (\<lambda>i. (ds ! i, read_ret rs i)) ?K"
    by (rule zip_map_same)
  also have "\<dots> = map (\<lambda>i. ?zs ! i) ?K"
    using assms by (auto simp: kept_indices_def read_ret_def)
  also have "\<dots> = map (\<lambda>i. ?zs ! i) (filter (\<lambda>i. (\<lambda>(x, r). in_range gt s e x) (?zs ! i)) [0..<length ?zs])"
    unfolding kept_indices_def len using assms
    by (intro arg_cong [where f = "map _"] filter_cong) auto
  also have "\<dots> = filter (\<lambda>(x, r). in_range gt s e x) ?zs"
    by (rule map_nth_filter_upt)
  finally show ?thesis .
qed

text \<open>
  C3. For every series and every pair of bound strings: when both bounds parse, the
  filter returns the series with exactly the observations (date and return of one index,
  in their order) whose date parses and lies in the closed interval between the parsed
  bounds, both ends included; an observation whose date does not parse is dropped. When
  a bound does not parse, the series is returned as it is. The filter has no failing
  branch: it returns a series for every input.
\<close>

theorem clipByRange_closed_interval:
  "(parseDate gt start = None \<or> parseDate gt en = None \<longrightarrow> clipByRange gt d start en = d)
   \<and> (\<forall>s e. parseDate gt start = Some s \<and> parseDate gt en = Some e \<longrightarrow>
         clipByRange gt d start en =
           d\<lparr>dates := map (\<lambda>i. dates d ! i) (kept_indices gt s e (dates d)),
             ret := map (read_ret (ret d)) (kept_indices gt s e (dates d))\<rparr>
         \<and> dates (clipByRange gt d start en) = filter (in_range gt s e) (dates d)
         \<and> (length (ret d) = length (dates d) \<longrightarrow>
              zip (dates (clipByRange gt d start en)) (ret (clipByRange gt d start en))
                = filter (\<lambda>(x, r). in_range gt s e x) (zip (dates d) (ret d))))"
proof (intro conjI allI impI)
  assume "parseDate gt start = None \<or> parseDate gt en = None"
  then show "clipByRange gt d start en = d" by (rule clipByRange_unparsed)
next
  fix s e
  assume "parseDate gt start = Some s \<and> parseDate gt en = Some e"
  then have p: "parseDate gt start = Some s" "parseDate gt en = Some e" by simp_all
  show c: "clipByRange gt d start en =
      d\<lparr>dates := map (\<lambda>i. dates d ! i) (kept_indices gt s e (dates d)),
        ret := map (read_ret (ret d)) (kept_indices gt s e (dates d))\<rparr>"
    by (rule clipByRange_parsed [OF p])
  show "dates (clipByRange gt d start en) = filter (in_range gt s e) (dates d)"
    unfolding c by (simp add: kept_dates)
  assume "length (ret d) = length (dates d)"
  then show "zip (dates (clipByRange gt d start en)) (ret (clipByRange gt d start en))
      = filter (\<lambda>(x, r). in_range gt s e x) (zip (dates d) (ret d))"
    unfolding c using kept_zip [of "ret d" "dates d" gt s e] by simp
qed


theorem clipByRange_closed_interval_witness:
  "parseDate (map_of [(''2020-01-01'', 1577836800000), (''2020-01-02'', 1577923200000),
                      (''2020-01-03'', 1578009600000), (''2020-01-06'', 1578268800000)])
     ''2020-01-02'' = Some 1577923200000
   \<and> parseDate (map_of [(''2020-01-01'', 1577836800000), (''2020-01-02'', 1577923200000),
                      (''2020-01-03'', 1578009600000), (''2020-01-06'', 1578268800000)])
     ''2020-01-03'' = Some 1578009600000
   \<and> clipByRange (map_of [(''2020-01-01'', 1577836800000), (''2020-01-02'', 1577923200000),
                      (''2020-01-03'', 1578009600000), (''2020-01-06'', 1578268800000)])
       \<lparr>name = None, factor = Some ''Top300'',
        dates = [''2020-01-01'', ''n/a'', ''2020-01-02'', ''2020-01-03'', ''2020-01-06''],
        ret = [Some (1::int), Some 2, Some 3, Some 4, Some 5]\<rparr>
       ''2020-01-02'' ''2020-01-03''
     = \<lparr>name = None, factor = Some ''Top300'',
        dates = [''2020-01-02'', ''2020-01-03''], ret = [Some 3, Some 4]\<rparr>
   \<and> parseDate (map_of [(''2020-01-01'', 1577836800000), (''2020-01-02'', 1577923200000),
                      (''2020-01-03'', 1578009600000), (''2020-01-06'', 1578268800000)])
     ''soon'' = None
   \<and> clipByRange (map_of [(''2020-01-01'', 1577836800000), (''2020-01-02'', 1577923200000),
                      (''2020-01-03'', 1578009600000), (''2020-01-06'', 1578268800000)])
       \<lparr>name = None, factor = Some ''Top300'',
        dates = [''2020-01-01'', ''n/a'', ''2020-01-02'', ''2020-01-03'', ''2020-01-06''],
        ret = [Some (1::int), Some 2, Some 3, Some 4, Some 5]\<rparr>
       ''2020-01-02'' ''soon''
     = \<lparr>name = None, factor = Some ''Top300'',
        dates = [''2020-01-01'', ''n/a'', ''2020-01-02'', ''2020-01-03'', ''2020-01-06''],
        ret = [Some 1, Some 2, Some 3, Some 4, Some 5]\<rparr>"
  using clipByRange_closed_interval
    [of "map_of [(''2020-01-01'', 1577836800000), (''2020-01-02'', 1577923200000),
                 (''2020-01-03'', 1578009600000), (''2020-01-06'', 1578268800000)]"
        "''2020-01-02''" "''2020-01-03''"
        "\<lparr>name = None, factor = Some ''Top300'',
          dates = [''2020-01-01'', ''n/a'', ''2020-01-02'', ''2020-01-03'', ''2020-01-06''],
          ret = [Some (1::int), Some 2, Some 3, Some 4, Some 5]\<rparr>"]
    clipByRange_closed_interval
    [of "map_of [(''2020-01-01'', 1577836800000), (''2020-01-02'', 1577923200000),
                 (''2020-01-03'', 1578009600000), (''2020-01-06'', 1578268800000)]"
        "''2020-01-02''" "''soon''"
        "\<lparr>name = None, factor = Some ''Top300'',
          dates = [''2020-01-01'', ''n/a'', ''2020-01-02'', ''2020-01-03'', ''2020-01-06''],
          ret = [Some (1::int), Some 2, Some 3, Some 4, Some 5]\<rparr>"]
  by (simp add: parseDate_def kept_indices_def in_range_def read_ret_def upt_rec)


lemma kept_indices_all:
  assumes "\<forall>x\<in>set ds. in_range gt s e x"
  shows "kept_indices gt s e ds = [0..<length ds]"
  unfolding kept_indices_def using assms by (auto intro!: filter_True)

lemma map_read_ret_upt: "map (read_ret xs) [0..<length xs] = xs"
  by (rule nth_equalityI) (simp_all add: read_ret_def)

text \<open>
  C8. The date range filter is idempotent: filtering the result of a filter with the
  same two bounds returns that result.
\<close>

theorem clipByRange_idempotent:
  "clipByRange gt (clipByRange gt d start en) start en = clipByRange gt d start en"
proof (cases "parseDate gt start = None \<or> parseDate gt en = None")
  case True
  then show ?thesis by (simp add: clipByRange_unparsed)
next
  case False
  then obtain s e where p: "parseDate gt start = Some s" "parseDate gt en = Some e" by auto
  define d' where "d' = clipByRange gt d start en"
  have ds: "dates d' = filter (in_range gt s e) (dates d)"
    unfolding d'_def by (simp add: clipByRange_parsed [OF p] kept_dates)
  have len: "length (ret d') = length (dates d')"
    unfolding d'_def by (simp add: clipByRange_parsed [OF p])
  have K: "kept_indices gt s e (dates d') = [0..<length (dates d')]"
    by (rule kept_indices_all) (simp add: ds)
  have a: "map (\<lambda>i. dates d' ! i) [0..<length (dates d')] = dates d'"
    by (rule map_nth)
  have b: "map (read_ret (ret d')) [0..<length (dates d')] = ret d'"
    unfolding len [symmetric] by (rule map_read_ret_upt)
  have "clipByRange gt d' start en = d'\<lparr>dates := dates d', ret := ret d'\<rparr>"
    unfolding clipByRange_parsed [OF p] K a b ..
  then show ?thesis by (simp add: d'_def)
qed

theorem clipByRange_idempotent_witness:
  "clipByRange (map_of [(''2020-01-01'', 1577836800000), (''2020-01-02'', 1577923200000)])
     (clipByRange (map_of [(''2020-01-01'', 1577836800000), (''2020-01-02'', 1577923200000)])
        \<lparr>name = None, factor = None, dates = [''2020-01-01'', ''2020-01-02'', ''n/a''],
         ret = [Some (1::int)]\<rparr> ''2020-01-02'' ''2020-01-02'')
     ''2020-01-02'' ''2020-01-02''
   = \<lparr>name = None, factor = None, dates = [''2020-01-02''], ret = [None]\<rparr>"
  using clipByRange_idempotent
    [of "map_of [(''2020-01-01'', 1577836800000), (''2020-01-02'', 1577923200000)]"
        "\<lparr>name = None, factor = None, dates = [''2020-01-01'', ''2020-01-02'', ''n/a''],
          ret = [Some (1::int)]\<rparr>" "''2020-01-02''" "''2020-01-02''"]
  by (simp add: clipByRange_def clip_step_def parseDate_def read_ret_def upt_rec)

section \<open>String order and calendar order\<close>

lemma lex_div_mod:
  fixes a b k :: nat
  shows "a div k < b div k \<or> (a div k = b div k \<and> a mod k < b mod k) \<longleftrightarrow> a < b"
proof
  assume "a div k < b div k \<or> (a div k = b div k \<and> a mod k < b mod k)"
  then show "a < b"
  proof
    assume "a div k < b div k"
    then show ?thesis by (meson div_le_mono not_le)
  next
    assume h: "a div k = b div k \<and> a mod k < b mod k"
    have "a = k * (a div k) + a mod k" "b = k * (b div k) + b mod k" by simp_all
    with h show ?thesis by (metis add_less_cancel_left)
  qed
next
  assume ab: "a < b"
  have le: "a div k \<le> b div k" using ab by (simp add: div_le_mono)
  show "a div k < b div k \<or> (a div k = b div k \<and> a mod k < b mod k)"
  proof (cases "a div k = b div k")
    case True
    have "a = k * (a div k) + a mod k" "b = k * (b div k) + b mod k" by simp_all
    with True ab have "a mod k < b mod k" by (metis add_less_cancel_left)
    with True show ?thesis by simp
  next
    case False
    with le show ?thesis by simp
  qed
qed

lemma eq_div_mod:
  fixes a b k :: nat
  shows "a div k = b div k \<and> a mod k = b mod k \<longleftrightarrow> a = b"
  by (metis div_mult_mod_eq)

lemma iso_date_example: "iso_date 2020 3 15 = ''2020-03-15''"
  by (simp add: iso_date_def digits2_def digit_def)

lemma of_char_digit: "n < 10 \<Longrightarrow> of_char (digit n) = 48 + n"
proof -
  assume "n < 10"
  then have "n \<in> {0, 1, 2, 3, 4, 5, 6, 7, 8, 9}" by auto
  then show ?thesis by (auto simp: digit_def)
qed

lemma digit_less_iff: "a < 10 \<Longrightarrow> b < 10 \<Longrightarrow> digit a < digit b \<longleftrightarrow> a < b"
  by (simp add: less_char_def of_char_digit)

lemma digit_eq_iff: "a < 10 \<Longrightarrow> b < 10 \<Longrightarrow> digit a = digit b \<longleftrightarrow> a = b"
  by (metis add_left_cancel of_char_digit)

lemma append_le_append_iff:
  fixes xs :: "'a::linorder list"
  assumes "length xs = length xs'"
  shows "xs @ ys \<le> xs' @ ys' \<longleftrightarrow> xs < xs' \<or> (xs = xs' \<and> ys \<le> ys')"
  using assms
proof (induction xs xs' rule: list_induct2)
  case Nil
  then show ?case by simp
next
  case (Cons x xs y ys)
  then show ?case by auto
qed

lemma digits2_less_iff:
  assumes "a < 100" and "b < 100"
  shows "digits2 a < digits2 b \<longleftrightarrow> a < b"
proof -
  have d: "a div 10 < 10" "a mod 10 < 10" "b div 10 < 10" "b mod 10 < 10"
    using assms by simp_all
  have "digits2 a < digits2 b \<longleftrightarrow>
      a div 10 < b div 10 \<or> (a div 10 = b div 10 \<and> a mod 10 < b mod 10)"
    by (simp add: digits2_def digit_less_iff digit_eq_iff d)
  then show ?thesis by (simp only: lex_div_mod)
qed

lemma digits2_eq_iff:
  assumes "a < 100" and "b < 100"
  shows "digits2 a = digits2 b \<longleftrightarrow> a = b"
proof -
  have d: "a div 10 < 10" "a mod 10 < 10" "b div 10 < 10" "b mod 10 < 10"
    using assms by simp_all
  have "digits2 a = digits2 b \<longleftrightarrow> a div 10 = b div 10 \<and> a mod 10 = b mod 10"
    by (simp add: digits2_def digit_eq_iff d)
  then show ?thesis by (simp only: eq_div_mod)
qed

lemma length_digits2: "length (digits2 n) = 2"
  by (simp add: digits2_def)

lemma iso_date_le_iff:
  assumes "y < 10000" "y' < 10000" "m < 100" "m' < 100" "d < 100" "d' < 100"
  shows "iso_date y m d \<le> iso_date y' m' d' \<longleftrightarrow>
     y < y' \<or> (y = y' \<and> (m < m' \<or> (m = m' \<and> d \<le> d')))"
proof -
  have q: "y div 100 < 100" "y mod 100 < 100" "y' div 100 < 100" "y' mod 100 < 100"
    using assms by simp_all
  have dd: "digits2 d \<le> digits2 d' \<longleftrightarrow> d \<le> d'"
    using digits2_less_iff [of d d'] digits2_eq_iff [of d d'] assms by (auto simp: le_less)
  have t1: "''-'' @ digits2 d \<le> ''-'' @ digits2 d' \<longleftrightarrow> d \<le> d'"
    by (simp add: dd)
  have t2: "digits2 m @ ''-'' @ digits2 d \<le> digits2 m' @ ''-'' @ digits2 d'
      \<longleftrightarrow> m < m' \<or> (m = m' \<and> d \<le> d')"
    by (simp only: append_le_append_iff length_digits2 t1 digits2_less_iff digits2_eq_iff assms)
  have t3: "''-'' @ digits2 m @ ''-'' @ digits2 d \<le> ''-'' @ digits2 m' @ ''-'' @ digits2 d'
      \<longleftrightarrow> m < m' \<or> (m = m' \<and> d \<le> d')"
    using t2 by simp
  have t4: "digits2 (y mod 100) @ ''-'' @ digits2 m @ ''-'' @ digits2 d
        \<le> digits2 (y' mod 100) @ ''-'' @ digits2 m' @ ''-'' @ digits2 d'
      \<longleftrightarrow> y mod 100 < y' mod 100 \<or> (y mod 100 = y' mod 100 \<and> (m < m' \<or> (m = m' \<and> d \<le> d')))"
    by (simp only: append_le_append_iff length_digits2 t3 digits2_less_iff digits2_eq_iff q)
  have "iso_date y m d \<le> iso_date y' m' d' \<longleftrightarrow>
      y div 100 < y' div 100 \<or> (y div 100 = y' div 100 \<and>
        (y mod 100 < y' mod 100 \<or> (y mod 100 = y' mod 100 \<and> (m < m' \<or> (m = m' \<and> d \<le> d')))))"
    unfolding iso_date_def
    by (simp only: append_le_append_iff length_digits2 t4 digits2_less_iff digits2_eq_iff q)
  also have "\<dots> \<longleftrightarrow> y < y' \<or> (y = y' \<and> (m < m' \<or> (m = m' \<and> d \<le> d')))"
    using lex_div_mod [of y 100 y'] eq_div_mod [of y 100 y'] by blast
  finally show ?thesis .
qed

section \<open>Properties of the event alignment\<close>

lemma findIndex_None_iff: "findIndex P xs = None \<longleftrightarrow> (\<forall>x\<in>set xs. \<not> P x)"
  by (induction xs) auto

lemma findIndex_Some_iff:
  "findIndex P xs = Some i \<longleftrightarrow> i < length xs \<and> P (xs ! i) \<and> (\<forall>j<i. \<not> P (xs ! j))"
proof (induction xs arbitrary: i)
  case Nil
  then show ?case by simp
next
  case (Cons x xs)
  show ?case
  proof (cases "P x")
    case True
    then show ?thesis by (cases i) auto
  next
    case False
    show ?thesis
    proof (cases i)
      case 0
      with False show ?thesis by auto
    next
      case (Suc k)
      have "(\<forall>j<Suc k. \<not> P ((x # xs) ! j)) \<longleftrightarrow> (\<forall>j<k. \<not> P (xs ! j))"
        using False by (auto simp: less_Suc_eq_0_disj)
      with False Suc Cons.IH [of k] show ?thesis by auto
    qed
  qed
qed

lemma aligned_markers_Cons:
  "aligned_markers x y k (e # pool) =
     (if type e = k then (case marker_of x y e of None \<Rightarrow> [] | Some p \<Rightarrow> [p]) else [])
     @ aligned_markers x y k pool"
  by (simp add: aligned_markers_def List.map_filter_simps split: option.splits)

lemma align_fold:
  "foldl (align_step x y) m pool =
     \<lparr>peaksX = peaksX m @ map fst (aligned_markers x y Peak pool),
      peaksY = peaksY m @ map snd (aligned_markers x y Peak pool),
      troughX = troughX m @ map fst (aligned_markers x y Trough pool),
      troughY = troughY m @ map snd (aligned_markers x y Trough pool)\<rparr>"
proof (induction pool arbitrary: m)
  case Nil
  then show ?case by (simp add: aligned_markers_def List.map_filter_simps)
next
  case (Cons e pool)
  have t: "type e = Trough \<longleftrightarrow> type e \<noteq> Peak" by (cases "type e") simp_all
  show ?case
    unfolding foldl_Cons Cons.IH aligned_markers_Cons
    by (cases "type e") (simp_all add: align_step_def marker_of_def split: option.splits)
qed

lemma marker_of_cases:
  assumes "sorted x" and "x \<noteq> []"
  shows "if date e \<le> last x
         then \<exists>i<length x. date e \<le> x ! i \<and> (\<forall>j<i. x ! j < date e)
                \<and> marker_of x y e = Some (x ! i, js_nth y i)
         else marker_of x y e = None"
proof (cases "date e \<le> last x")
  case True
  have "last x \<in> set x" using assms(2) by simp
  with True have "\<not> (\<forall>d\<in>set x. \<not> date e \<le> d)" by blast
  then obtain i where i: "findIndex (\<lambda>d. date e \<le> d) x = Some i"
    unfolding findIndex_None_iff [symmetric] by auto
  then have "i < length x" "date e \<le> x ! i" "\<forall>j<i. \<not> date e \<le> x ! j"
    unfolding findIndex_Some_iff by simp_all
  moreover from i have "marker_of x y e = Some (x ! i, js_nth y i)"
    by (simp add: marker_of_def)
  ultimately show ?thesis using True by (auto simp: not_le)
next
  case False
  have "\<not> date e \<le> d" if "d \<in> set x" for d
  proof -
    from that obtain k where k: "k < length x" "x ! k = d" by (auto simp: in_set_conv_nth)
    have "x ! k \<le> x ! (length x - 1)"
      using assms(1) k(1) by (intro sorted_nth_mono) simp_all
    with k assms(2) have "d \<le> last x"
      by (simp add: last_conv_nth)
    with False show ?thesis by auto
  qed
  then have "findIndex (\<lambda>d. date e \<le> d) x = None"
    unfolding findIndex_None_iff by simp
  with False show ?thesis by (simp add: marker_of_def)
qed

text \<open>
  C7. For every benchmark series that is not empty and whose date strings ascend, and
  every event list: the markers are those of the events of the pool, each kind in the
  order of the events. Every event with a date string is in the pool. If its date is not
  after the last observation date, its marker is at the first observation whose date is
  greater than or equal to the event date, and carries that observation's date and the
  value of the cumulative curve at its index. If its date is after the last observation
  date, the event has no marker, and nothing fails. Dates are compared as the code
  compares them, as strings; for dates written \<^verbatim>\<open>YYYY-MM-DD\<close> that is the order of the
  calendar (lemma \<open>iso_date_le_iff\<close>).
\<close>

theorem event_alignment_first_not_before:
  assumes "sorted (dates b)" and "dates b \<noteq> []" and "ret b \<noteq> []"
  shows "\<exists>t. gwSignalTraces (Some b) (Some evs) = Some t
     \<and> peaksX (marks t) = map fst (aligned_markers (dates b) (toCum (ret b)) Peak (eventPool (Some evs)))
     \<and> peaksY (marks t) = map snd (aligned_markers (dates b) (toCum (ret b)) Peak (eventPool (Some evs)))
     \<and> troughX (marks t) = map fst (aligned_markers (dates b) (toCum (ret b)) Trough (eventPool (Some evs)))
     \<and> troughY (marks t) = map snd (aligned_markers (dates b) (toCum (ret b)) Trough (eventPool (Some evs)))
     \<and> (\<forall>e\<in>set evs. date e \<noteq> [] \<longrightarrow>
           e \<in> set (eventPool (Some evs))
           \<and> (if date e \<le> last (dates b)
              then \<exists>i<length (dates b).
                     date e \<le> dates b ! i \<and> (\<forall>j<i. dates b ! j < date e)
                     \<and> marker_of (dates b) (toCum (ret b)) e
                         = Some (dates b ! i, js_nth (toCum (ret b)) i)
                     \<and> (i < length (ret b) \<longrightarrow>
                          js_nth (toCum (ret b)) i = Some (toCum (ret b) ! i))
              else marker_of (dates b) (toCum (ret b)) e = None))"
proof -
  let ?x = "dates b" and ?y = "toCum (ret b)" and ?pool = "eventPool (Some evs)"
  define t where "t = \<lparr>benchX = ?x, benchY = ?y,
      marks = foldl (align_step ?x ?y) \<lparr>peaksX = [], peaksY = [], troughX = [], troughY = []\<rparr> ?pool,
      shapes = map (\<lambda>e. (date e, type e)) ?pool\<rparr>"
  have g: "gwSignalTraces (Some b) (Some evs) = Some t"
    using assms(2,3) by (simp add: gwSignalTraces_def Let_def t_def)
  have m: "marks t = \<lparr>peaksX = map fst (aligned_markers ?x ?y Peak ?pool),
      peaksY = map snd (aligned_markers ?x ?y Peak ?pool),
      troughX = map fst (aligned_markers ?x ?y Trough ?pool),
      troughY = map snd (aligned_markers ?x ?y Trough ?pool)\<rparr>"
    by (simp add: t_def align_fold)
  have len: "length ?y = length (ret b)"
    by (simp add: toCum_def length_toCum_from)
  have ev: "e \<in> set ?pool
       \<and> (if date e \<le> last ?x
          then \<exists>i<length ?x. date e \<le> ?x ! i \<and> (\<forall>j<i. ?x ! j < date e)
                 \<and> marker_of ?x ?y e = Some (?x ! i, js_nth ?y i)
                 \<and> (i < length (ret b) \<longrightarrow> js_nth ?y i = Some (?y ! i))
          else marker_of ?x ?y e = None)"
    if "e \<in> set evs" "date e \<noteq> []" for e
  proof -
    have "e \<in> set ?pool" using that by (simp add: eventPool_def)
    moreover have "js_nth ?y i = Some (?y ! i)" if "i < length (ret b)" for i
      using that len by (simp add: js_nth_def)
    ultimately show ?thesis
      using marker_of_cases [OF assms(1,2), of e ?y] by (auto split: if_splits)
  qed
  show ?thesis
    by (rule exI [of _ t]) (simp add: g m ev)
qed

theorem event_alignment_first_not_before_witness:
  "sorted [''2020-03-13'', ''2020-03-16'', ''2020-03-20'']
   \<and> [''2020-03-13'', ''2020-03-16'', ''2020-03-20''] \<noteq> []
   \<and> [1, -1/2, 2] \<noteq> ([] :: real list)
   \<and> gwSignalTraces
        (Some \<lparr>name = None, factor = Some ''Top300'',
               dates = [''2020-03-13'', ''2020-03-16'', ''2020-03-20''], ret = [1, -1/2, 2]\<rparr>)
        (Some [\<lparr>type = Peak, date = ''2020-03-15''\<rparr>, \<lparr>type = Trough, date = ''2020-03-21''\<rparr>,
               \<lparr>type = Trough, date = ''2020-03-13''\<rparr>])
      = Some \<lparr>benchX = [''2020-03-13'', ''2020-03-16'', ''2020-03-20''], benchY = [2, 1, 3],
              marks = \<lparr>peaksX = [''2020-03-16''], peaksY = [Some 1],
                       troughX = [''2020-03-13''], troughY = [Some 2]\<rparr>,
              shapes = [(''2020-03-15'', Peak), (''2020-03-21'', Trough), (''2020-03-13'', Trough)]\<rparr>"
  using event_alignment_first_not_before
    [of "\<lparr>name = None, factor = Some ''Top300'',
          dates = [''2020-03-13'', ''2020-03-16'', ''2020-03-20''], ret = [1, -1/2, 2]\<rparr>"
        "[\<lparr>type = Peak, date = ''2020-03-15''\<rparr>, \<lparr>type = Trough, date = ''2020-03-21''\<rparr>,
          \<lparr>type = Trough, date = ''2020-03-13''\<rparr>]"]
  by (simp add: gwSignalTraces_def eventPool_def align_step_def js_nth_def toCum_def Let_def)

section \<open>Properties of the heatmap encoding\<close>

lemma fill_rows:
  fixes m :: "'a list list"
  shows "length (foldl (\<lambda>m row. m[row := (m ! row)[col := v row] ]) m rows) = length m
    \<and> (\<forall>row<length m.
          foldl (\<lambda>m row. m[row := (m ! row)[col := v row] ]) m rows ! row
            = (if row \<in> set rows then (m ! row)[col := v row] else m ! row))"
proof (induction rows rule: rev_induct)
  case Nil
  then show ?case by simp
next
  case (snoc r rows)
  let ?m' = "foldl (\<lambda>m row. m[row := (m ! row)[col := v row] ]) m rows"
  have len: "length ?m' = length m" using snoc by simp
  have nth: "?m' ! row = (if row \<in> set rows then (m ! row)[col := v row] else m ! row)"
    if "row < length m" for row using snoc that by simp
  have step: "foldl (\<lambda>m row. m[row := (m ! row)[col := v row] ]) m (rows @ [r])
      = ?m'[r := (?m' ! r)[col := v r] ]" by simp
  show ?case
  proof (intro conjI allI impI)
    show "length (foldl (\<lambda>m row. m[row := (m ! row)[col := v row] ]) m (rows @ [r])) = length m"
      unfolding step by (simp add: len)
  next
    fix row assume row: "row < length m"
    show "foldl (\<lambda>m row. m[row := (m ! row)[col := v row] ]) m (rows @ [r]) ! row
        = (if row \<in> set (rows @ [r]) then (m ! row)[col := v row] else m ! row)"
    proof (cases "row = r")
      case True
      with row have "?m'[r := (?m' ! r)[col := v r] ] ! row = (?m' ! r)[col := v r]"
        by (simp add: len)
      with True row show ?thesis unfolding step by (simp add: nth)
    next
      case False
      then have "?m'[r := (?m' ! r)[col := v r] ] ! row = ?m' ! row" by simp
      with False row show ?thesis unfolding step by (simp add: nth)
    qed
  qed
qed

lemma fill_cols:
  fixes m :: "'a list list"
  assumes "length m = n"
  shows "length (foldl (\<lambda>m col. foldl (\<lambda>m row. m[row := (m ! row)[col := v col row] ]) m [0..<n]) m cols) = n
    \<and> (\<forall>row<n.
          length (foldl (\<lambda>m col. foldl (\<lambda>m row. m[row := (m ! row)[col := v col row] ]) m [0..<n]) m cols ! row)
            = length (m ! row)
          \<and> (\<forall>c<length (m ! row).
                foldl (\<lambda>m col. foldl (\<lambda>m row. m[row := (m ! row)[col := v col row] ]) m [0..<n]) m cols ! row ! c
                  = (if c \<in> set cols then v c row else m ! row ! c)))"
proof (induction cols rule: rev_induct)
  case Nil
  then show ?case using assms by simp
next
  case (snoc k cols)
  let ?F = "\<lambda>cols. foldl (\<lambda>m col. foldl (\<lambda>m row. m[row := (m ! row)[col := v col row] ]) m [0..<n]) m cols"
  let ?m' = "?F cols"
  have len: "length ?m' = n" using snoc by simp
  have rowlen: "length (?m' ! row) = length (m ! row)" if "row < n" for row
    using snoc that by simp
  have cell: "?m' ! row ! c = (if c \<in> set cols then v c row else m ! row ! c)"
    if "row < n" "c < length (m ! row)" for row c using snoc that by simp
  have step: "?F (cols @ [k]) = foldl (\<lambda>m row. m[row := (m ! row)[k := v k row] ]) ?m' [0..<n]"
    by simp
  have new: "?F (cols @ [k]) ! row = (?m' ! row)[k := v k row]" if "row < n" for row
    unfolding step using fill_rows [where m = ?m' and col = k and v = "v k" and rows = "[0..<n]"] that len by simp
  show ?case
  proof (intro conjI allI impI)
    show "length (?F (cols @ [k])) = n"
      unfolding step using fill_rows [where m = ?m' and col = k and v = "v k" and rows = "[0..<n]"] len by simp
  next
    fix row assume "row < n"
    then show "length (?F (cols @ [k]) ! row) = length (m ! row)"
      by (simp only: new) (simp add: rowlen)
  next
    fix row c assume rc: "row < n" "c < length (m ! row)"
    then have "c < length (?m' ! row)" by (simp add: rowlen)
    then have "(?m' ! row)[k := v k row] ! c = (if c = k then v k row else ?m' ! row ! c)"
      by (simp add: nth_list_update)
    with rc show "?F (cols @ [k]) ! row ! c = (if c \<in> set (cols @ [k]) then v c row else m ! row ! c)"
      by (simp only: new) (auto simp: cell)
  qed
qed

lemma fill_cell_fst:
  "fst (foldl (fill_cell cellText h obj col) (z, tx) rows)
     = foldl (\<lambda>m row. m[row := (m ! row)[col := obj_get_or_minus1 obj (fname_at (ranked_factors h) col row)] ]) z rows"
  by (induction rows arbitrary: z tx) (simp_all add: fill_cell_def Let_def)


lemma fill_all_fst:
  "fst (foldl (\<lambda>acc col. foldl (fill_cell cellText h obj col) acc rows) (z, tx) cols)
     = foldl (\<lambda>m col. foldl (\<lambda>m row. m[row := (m ! row)[col :=
          obj_get_or_minus1 obj (fname_at (ranked_factors h) col row)] ]) m rows) z cols"
proof (induction cols arbitrary: z tx)
  case Nil
  then show ?case by simp
next
  case (Cons c cols)
  obtain z' tx' where s: "foldl (fill_cell cellText h obj c) (z, tx) rows = (z', tx')"
    by (cases "foldl (fill_cell cellText h obj c) (z, tx) rows")
  have "z' = foldl (\<lambda>m row. m[row := (m ! row)[c :=
      obj_get_or_minus1 obj (fname_at (ranked_factors h) c row)] ]) z rows"
    using fill_cell_fst [of cellText h obj c z tx rows] s by simp
  then show ?case by (simp add: s Cons.IH)
qed


lemma encode_heatmap_z:
  assumes "row < N_of (ranked_factors h)" and "col < length (months h)"
  shows "plot_z (encode_heatmap cellText h) ! row ! col
     = obj_get_or_minus1 (factorToCode (factorList_of h)) (fname_at (ranked_factors h) col row)"
proof -
  let ?N = "N_of (ranked_factors h)" and ?M = "length (months h)"
  let ?z0 = "replicate ?N (replicate ?M (Code 0))"
  have "plot_z (encode_heatmap cellText h)
      = fst (foldl (\<lambda>acc col. foldl (fill_cell cellText h (factorToCode (factorList_of h)) col) acc [0..<?N])
               (?z0, replicate ?N (replicate ?M [])) [0..<?M])"
    by (simp add: encode_heatmap_def Let_def split: prod.splits)
  also note fill_all_fst
  finally show ?thesis
    using fill_cols [where m = ?z0 and n = ?N and cols = "[0..<?M]"
        and v = "\<lambda>col row. obj_get_or_minus1 (factorToCode (factorList_of h))
          (fname_at (ranked_factors h) col row)"] assms
    by simp
qed


lemma factorToCode_snoc:
  "factorToCode (fl @ [f]) = obj_set (factorToCode fl) f (length fl)"
  by (simp add: factorToCode_def)

lemma factorToCode_proto: "factorToCode fl ''__proto__'' = None"
  by (induction fl rule: rev_induct) (simp_all add: factorToCode_def obj_set_def)

lemma factorToCode_absent: "k \<notin> set fl \<Longrightarrow> factorToCode fl k = None"
proof (induction fl rule: rev_induct)
  case Nil
  then show ?case by (simp add: factorToCode_def)
next
  case (snoc f fl)
  then show ?case by (simp add: factorToCode_snoc obj_set_def)
qed

lemma factorToCode_present:
  assumes "k \<in> set fl" and "k \<noteq> ''__proto__''"
  shows "\<exists>i<length fl. factorToCode fl k = Some i \<and> fl ! i = k
           \<and> (\<forall>j<length fl. fl ! j = k \<longrightarrow> j \<le> i)"
  using assms(1)
proof (induction fl rule: rev_induct)
  case Nil
  then show ?case by simp
next
  case (snoc f fl)
  show ?case
  proof (cases "f = k")
    case True
    have "factorToCode (fl @ [f]) k = Some (length fl)"
      using True assms(2) by (simp add: factorToCode_snoc obj_set_def)
    moreover have "(fl @ [f]) ! length fl = k" using True by simp
    ultimately show ?thesis by (intro exI [of _ "length fl"]) auto
  next
    case False
    with snoc.prems have "k \<in> set fl" by simp
    from snoc.IH [OF this] obtain i where i: "i < length fl" "factorToCode fl k = Some i"
      "fl ! i = k" "\<forall>j<length fl. fl ! j = k \<longrightarrow> j \<le> i" by blast
    have "factorToCode (fl @ [f]) k = Some i"
      using False i(2) by (simp add: factorToCode_snoc obj_set_def)
    moreover have "(fl @ [f]) ! i = k" using i(1,3) by (simp add: nth_append)
    moreover have "\<forall>j<length (fl @ [f]). (fl @ [f]) ! j = k \<longrightarrow> j \<le> i"
      using False i(4) by (auto simp: nth_append less_Suc_eq)
    ultimately show ?thesis using i(1) by (intro exI [of _ i]) auto
  qed
qed

lemma heatmap_z_ordinary_label:
  assumes "row < N_of (ranked_factors h)" and "col < length (months h)"
    and "fname_at (ranked_factors h) col row \<notin> set Object_prototype_keys"
  shows "(fname_at (ranked_factors h) col row \<in> set (factorList_of h) \<longrightarrow>
            (\<exists>i<length (factorList_of h).
               plot_z (encode_heatmap cellText h) ! row ! col = Code (int i)
               \<and> factorList_of h ! i = fname_at (ranked_factors h) col row))
       \<and> (fname_at (ranked_factors h) col row \<notin> set (factorList_of h) \<longrightarrow>
            plot_z (encode_heatmap cellText h) ! row ! col = Code (- 1))"
proof -
  let ?f = "fname_at (ranked_factors h) col row" and ?fl = "factorList_of h"
  have np: "?f \<noteq> ''__proto__''" using assms(3) by (auto simp: Object_prototype_keys_def)
  have z: "plot_z (encode_heatmap cellText h) ! row ! col = obj_get_or_minus1 (factorToCode ?fl) ?f"
    by (rule encode_heatmap_z [OF assms(1,2)])
  have "\<exists>i<length ?fl. obj_get_or_minus1 (factorToCode ?fl) ?f = Code (int i) \<and> ?fl ! i = ?f"
    if "?f \<in> set ?fl"
  proof -
    from factorToCode_present [OF that np] obtain i where
      "i < length ?fl" "factorToCode ?fl ?f = Some i" "?fl ! i = ?f" by blast
    then show ?thesis by (intro exI [of _ i]) (simp add: obj_get_or_minus1_def)
  qed
  moreover have "obj_get_or_minus1 (factorToCode ?fl) ?f = Code (- 1)" if "?f \<notin> set ?fl"
    using factorToCode_absent [OF that] assms(3) by (simp add: obj_get_or_minus1_def)
  ultimately show ?thesis unfolding z by blast
qed

text \<open>
  C9. Every cell of \<open>z\<close> should hold the index of its label in the category list, or
  \<open>-1\<close> when the label is not in the list, so that an in-list label is recovered by
  indexing the list with the cell. Lemma \<open>heatmap_z_ordinary_label\<close> proves this for every
  label that is not the name of a member of \<^verbatim>\<open>Object.prototype\<close>. For such a name the code
  does otherwise, since \<^verbatim>\<open>factorToCode\<close> is an object literal: with the categories
  \<^verbatim>\<open>["A", "B"]\<close>, the label \<^verbatim>\<open>constructor\<close> is not in the list, and its cell is the inherited
  function instead of \<open>-1\<close>; with the categories \<^verbatim>\<open>["__proto__", "A"]\<close> the label
  \<^verbatim>\<open>__proto__\<close> is in the list at index 0, and its cell is the prototype object instead
  of 0.
\<close>

theorem heatmap_z_inherited_member:
  "plot_z (encode_heatmap (cell_text toFixed)
      \<lparr>months = [''2024-01''], ranked_factors = [ [''constructor'', ''A''] ],
       ranked_returns = [ [Num 1, Num 2] ], factors = Some [''A'', ''B'']\<rparr>)
     = [ [Inherited ''constructor''], [Code 0] ]
   \<and> plot_z (encode_heatmap (cell_text toFixed)
      \<lparr>months = [''2024-01''], ranked_factors = [ [''__proto__'', ''A''] ],
       ranked_returns = [ [Num 1, Num 2] ], factors = Some [''__proto__'', ''A'']\<rparr>)
     = [ [Inherited ''__proto__''], [Code 1] ]"
  by (simp add: encode_heatmap_def N_of_def factorList_of_def factorToCode_def obj_set_def
      obj_get_or_minus1_def fill_cell_def fname_at_def r_at_def Object_prototype_keys_def
      Let_def)

lemma heatmap_z_two_categories:
  "plot_z (encode_heatmap (cell_text toFixed)
      \<lparr>months = [''2024-01''], ranked_factors = [ [''B'', ''A''] ],
       ranked_returns = [ [Num 1, Num 2] ], factors = Some [''A'', ''B'']\<rparr>)
     = [ [Code 1], [Code 0] ]"
  by (simp add: encode_heatmap_def N_of_def factorList_of_def factorToCode_def obj_set_def
      obj_get_or_minus1_def fill_cell_def fname_at_def r_at_def Object_prototype_keys_def
      Let_def)









end
